theory Spec2Isabelle
  imports Main
begin

section \<open>The state the patch engine works on\<close>

text \<open>
  The patch engine (package \<open>patch\<close>) reads and writes two keys of the state,
  \<open>patch-level\<close> and \<open>patch-sublevel\<close>, through \<open>state.Get\<close> and \<open>state.Set\<close>, and hands
  the whole state to the patch functions. Package \<open>state\<close> is used by the engine but is
  not part of the sources at hand, so the few operations the engine calls are modelled
  from the specification (section 4.1).

  Go's \<open>int\<close> is taken to be 64 bits wide and is modelled by \<open>int\<close>, with the
  wrap-around written out where an addition can leave the machine range. The engine
  only compares levels and sublevels and adds one to them:
  \<^item> to the stored sublevel, which comes from the state and can be the largest \<open>int\<close>:
    this addition wraps (\<open>wrap_inc\<close> below);
  \<^item> to the loop counter of \<open>applySublevelPatches\<close>, which is below the length of a
    slice and so cannot overflow;
  \<^item> to the stored level and to the loop counter over the levels, which are at most
    \<open>Level\<close>: \<open>Level\<close> is the level of the running software, a variable of the package
    and no input, and is taken to be below the largest \<open>int\<close>.
\<close>

definition max_int :: int where
  "max_int = 9223372036854775807"

definition min_int :: int where
  "min_int = - 9223372036854775808"

text \<open>Go's \<open>x + 1\<close> on an \<open>int\<close>.\<close>

definition wrap_inc :: "int \<Rightarrow> int" where
  "wrap_inc x = (if x = max_int then min_int else x + 1)"

datatype jvalue = JInt int | JStr string | JBool bool

text \<open>
  Modelled from the spec: the type \<open>state.State\<close> is missing. The spec describes it as a
  key/value map of persisted data with a dirty flag; the stored values are JSON, of which
  integers, strings and booleans are kept here.
\<close>

record state =
  data :: "string \<Rightarrow> jvalue option"
  dirty :: bool

text \<open>
  Go's \<open>error\<close> values that occur: the sentinel \<open>state.ErrNoState\<close>, a decode failure of
  \<open>Get\<close>, the three errors \<open>Apply\<close> builds with \<open>fmt.Errorf\<close>
  (\<open>cannot downgrade: ... (patch level n)\<close>, \<open>cannot upgrade: ... (patch level n)\<close>,
  \<open>cannot patch system state to level l, sublevel k: err\<close>) and whatever else a patch
  function returns. A value of type \<open>error option\<close> is a Go \<open>error\<close>, \<open>None\<close> being \<open>nil\<close>.
\<close>

datatype error =
    ErrNoState
  | ErrDecode string
  | ErrDowngrade int
  | ErrUpgrade int
  | ErrPatch int int error
  | ErrMsg string

text \<open>
  Modelled from the spec: \<open>state.Get\<close> is missing. \<open>Get(key, out)\<close> decodes the stored
  data into \<open>out\<close>, signalling \<open>NoState\<close> when the key is absent and a decode error on a
  type mismatch. The engine only ever decodes into an \<open>int\<close>; the second component is
  the content of \<open>out\<close> after the call.
\<close>

definition Get :: "string \<Rightarrow> state \<Rightarrow> int \<Rightarrow> error option \<times> int" where
  "Get key s out =
     (case data s key of
        None \<Rightarrow> (Some ErrNoState, out)
      | Some (JInt n) \<Rightarrow> (None, n)
      | Some _ \<Rightarrow> (Some (ErrDecode key), out))"

text \<open>
  Modelled from the spec: \<open>state.Set\<close> is missing. \<open>Set(key, value)\<close> stores the value
  and marks the state dirty.
\<close>

definition Set :: "string \<Rightarrow> jvalue \<Rightarrow> state \<Rightarrow> state" where
  "Set key v s = s\<lparr>data := (data s)(key \<mapsto> v), dirty := True\<rparr>"

subsection \<open>Observable events\<close>

text \<open>
  To state which patch functions ran, in which order and inside which lock transaction,
  a run carries the list of events it produced, oldest first: taking and releasing the
  state lock, every \<open>Set\<close> the engine does, and every call of a patch function with the
  level and sublevel it was called for and the error it returned.
\<close>

datatype event =
    EvLock
  | EvUnlock
  | EvSet string jvalue
  | EvPatch int int "error option"

record world =
  st :: state
  trace :: "event list"

text \<open>
  Modelled from the spec: \<open>Lock\<close> and \<open>Unlock\<close> of the missing \<open>state.State\<close>. The run is
  sequential, so they only leave their mark in the trace.
\<close>

definition Lock :: "world \<Rightarrow> world" where
  "Lock w = w\<lparr>trace := trace w @ [EvLock]\<rparr>"

definition Unlock :: "world \<Rightarrow> world" where
  "Unlock w = w\<lparr>trace := trace w @ [EvUnlock]\<rparr>"

definition wSet :: "string \<Rightarrow> jvalue \<Rightarrow> world \<Rightarrow> world" where
  "wSet key v w = w\<lparr>st := Set key v (st w), trace := trace w @ [EvSet key v]\<rparr>"

section \<open>The patch engine\<close>

text \<open>
  A \<open>PatchFunc\<close> gets the state and returns an error or \<open>nil\<close>. It works on the state
  in place, so the state it leaves behind is there whether it fails or not. The patch
  functions of the registry are taken to be functions that return (not \<open>nil\<close> function
  values, no panic inside a patch).
\<close>

type_synonym PatchFunc = "state \<Rightarrow> error option \<times> state"

text \<open>
  The package variables \<open>Level\<close>, \<open>Sublevel\<close> and \<open>patches\<close> (which \<open>Fake\<close> replaces in
  tests); the field \<open>registry\<close> holds what the Go map \<open>patches\<close> was filled with.
\<close>

record config =
  Level :: int
  Sublevel :: int
  registry :: "int \<Rightarrow> PatchFunc list option"

text \<open>
  The length of a Go slice is an \<open>int\<close>, so a slice has at most \<open>max_int\<close> elements,
  while a list can be longer.
\<close>

definition max_len :: nat where
  "max_len = 9223372036854775807"

text \<open>
  \<open>patches[level]\<close>, the read of the Go map, which yields a slice: \<open>None\<close> is the nil
  slice that a missing level yields, \<open>Some []\<close> an empty slice that is not nil. Of a
  registered list only as many elements as a slice can hold are there.
\<close>

definition patches :: "config \<Rightarrow> int \<Rightarrow> PatchFunc list option" where
  "patches cfg level = map_option (take max_len) (registry cfg level)"

definition sublevels :: "config \<Rightarrow> int \<Rightarrow> PatchFunc list" where
  "sublevels cfg level = (case patches cfg level of None \<Rightarrow> [] | Some ps \<Rightarrow> ps)"

text \<open>A call returns an error (or \<open>nil\<close>), or it panics.\<close>

datatype outcome = Return "error option" | Panic string

definition Init :: "config \<Rightarrow> world \<Rightarrow> outcome \<times> world" where
  "Init cfg w =
     (let w1 = Lock w in
      if fst (Get ''patch-level'' (st w1) 0) \<noteq> Some ErrNoState
      then (Panic ''internal error: expected empty state, attempting to override patch-level without actual patching'',
            Unlock w1)
      else
        let w2 = wSet ''patch-level'' (JInt (Level cfg)) w1 in
        if fst (Get ''patch-sublevel'' (st w2) 0) \<noteq> Some ErrNoState
        then (Panic ''internal error: expected empty state, attempting to override patch-sublevel without actual patching'',
              Unlock w2)
        else (Return None, Unlock (wSet ''patch-sublevel'' (JInt (Sublevel cfg)) w2)))"

definition applyOne :: "PatchFunc \<Rightarrow> world \<Rightarrow> int \<Rightarrow> int \<Rightarrow> error option \<times> world" where
  "applyOne patch w newLevel newSublevel =
     (let w1 = Lock w;
          (err, s') = patch (st w1);
          w2 = w1\<lparr>st := s', trace := trace w1 @ [EvPatch newLevel newSublevel err]\<rparr>
      in if err \<noteq> None then (err, Unlock w2)
         else (None, Unlock (wSet ''patch-sublevel'' (JInt newSublevel)
                              (wSet ''patch-level'' (JInt newLevel) w2))))"

text \<open>
  The loop of \<open>applySublevelPatches\<close>, the argument \<open>sublevel\<close> being the loop variable
  (first \<open>firstSublevel\<close>). Indexing the slice with a negative number is a run-time
  panic; an index at or above the length is never reached. The counter is below the
  length of a slice when it is incremented, so \<open>sublevel++\<close> does not overflow. The log
  messages are left out.
\<close>

function applySublevelPatches :: "config \<Rightarrow> int \<Rightarrow> int \<Rightarrow> world \<Rightarrow> outcome \<times> world" where
  "applySublevelPatches cfg level sublevel w =
     (if sublevel < int (length (sublevels cfg level)) then
        (if sublevel < 0 then (Panic ''runtime error: index out of range'', w)
         else
           (case applyOne (sublevels cfg level ! nat sublevel) w level sublevel of
              (Some err, w') \<Rightarrow> (Return (Some (ErrPatch level sublevel err)), w')
            | (None, w') \<Rightarrow> applySublevelPatches cfg level (sublevel + 1) w'))
      else (Return None, w))"
  by pat_completeness auto
termination
  by (relation "measure (\<lambda>(cfg, level, sublevel, w).
        nat (int (length (sublevels cfg level)) - sublevel))") auto

text \<open>
  The loop over the levels at the end of \<open>Apply\<close>, \<open>level\<close> being the loop variable. The
  counter is at most \<open>Level\<close> when it is incremented; \<open>Level\<close> is taken to be below the
  largest \<open>int\<close>, so \<open>level++\<close> does not overflow.
\<close>

function Apply_levels :: "config \<Rightarrow> int \<Rightarrow> world \<Rightarrow> outcome \<times> world" where
  "Apply_levels cfg level w =
     (if level \<le> Level cfg then
        (case patches cfg level of
           None \<Rightarrow> (Return (Some (ErrUpgrade (level - 1))), w)
         | Some _ \<Rightarrow>
             (case applySublevelPatches cfg level 0 w of
                (Return None, w') \<Rightarrow> Apply_levels cfg (level + 1) w'
              | r \<Rightarrow> r))
      else (Return None, w))"
  by pat_completeness auto
termination
  by (relation "measure (\<lambda>(cfg, level, w). nat (Level cfg + 1 - level))") auto

text \<open>
  The first lines of \<open>Apply\<close>: both markers are read into variables that start at 0;
  the sublevel is only read when reading the level gave \<open>nil\<close> or \<open>ErrNoState\<close>.
\<close>

definition Apply_read :: "state \<Rightarrow> error option \<times> int \<times> int" where
  "Apply_read s =
     (let (err, stateLevel) = Get ''patch-level'' s 0 in
      if err = None \<or> err = Some ErrNoState
      then (let (err', stateSublevel) = Get ''patch-sublevel'' s 0
            in (err', stateLevel, stateSublevel))
      else (err, stateLevel, 0))"

text \<open>
  The rest of \<open>Apply\<close>, from the comparison with \<open>Level\<close> on. \<open>stateSublevel+1\<close> is
  Go's addition: at the largest \<open>int\<close> it wraps to the smallest, which is below every
  length, so that the pending step is entered with a negative index.
\<close>

definition Apply_body :: "config \<Rightarrow> int \<Rightarrow> int \<Rightarrow> world \<Rightarrow> outcome \<times> world" where
  "Apply_body cfg stateLevel stateSublevel w =
     (if stateLevel > Level cfg then (Return (Some (ErrDowngrade stateLevel)), w)
      else if stateLevel = Level cfg \<and> stateSublevel = Sublevel cfg then (Return None, w)
      else if stateLevel = Level cfg \<and> stateSublevel > Sublevel cfg
        then (Return None, Unlock (wSet ''patch-sublevel'' (JInt (Sublevel cfg)) (Lock w)))
      else
        (case (if wrap_inc stateSublevel < int (length (sublevels cfg stateLevel))
               then applySublevelPatches cfg stateLevel (wrap_inc stateSublevel) w
               else (Return None, w)) of
           (Return None, w') \<Rightarrow> Apply_levels cfg (stateLevel + 1) w'
         | r \<Rightarrow> r))"

definition Apply :: "config \<Rightarrow> world \<Rightarrow> outcome \<times> world" where
  "Apply cfg w =
     (let w1 = Lock w;
          (err, stateLevel, stateSublevel) = Apply_read (st w1);
          w2 = Unlock w1
      in if err \<noteq> None \<and> err \<noteq> Some ErrNoState then (Return err, w2)
         else Apply_body cfg stateLevel stateSublevel w2)"


section \<open>Notions the properties are stated with\<close>

text \<open>
  The integer a marker key stands for when \<open>Apply\<close> reads it into a variable that
  starts at 0: an absent key leaves the 0, an integer is read as it is, and anything
  else does not decode.
\<close>

definition marker :: "string \<Rightarrow> state \<Rightarrow> int option" where
  "marker key s =
     (case data s key of None \<Rightarrow> Some 0 | Some (JInt n) \<Rightarrow> Some n | Some _ \<Rightarrow> None)"

text \<open>The stored patch level and sublevel of a state, when both can be read.\<close>

definition stored :: "state \<Rightarrow> (int \<times> int) option" where
  "stored s =
     (case marker ''patch-level'' s of
        None \<Rightarrow> None
      | Some l \<Rightarrow> (case marker ''patch-sublevel'' s of None \<Rightarrow> None | Some k \<Rightarrow> Some (l, k)))"

text \<open>What a call added to the trace.\<close>

definition new_events :: "world \<Rightarrow> world \<Rightarrow> event list" where
  "new_events w w' = drop (length (trace w)) (trace w')"

text \<open>The patch functions that were called, as (level, sublevel) pairs in call order.\<close>

fun calls :: "event list \<Rightarrow> (int \<times> int) list" where
  "calls [] = []"
| "calls (EvPatch l k r # es) = (l, k) # calls es"
| "calls (_ # es) = calls es"

text \<open>
  The events of one patch transaction that went through: the lock is taken, the patch
  function of level \<open>l\<close> and sublevel \<open>k\<close> returns \<open>nil\<close>, both markers are set to
  \<open>(l, k)\<close>, the lock is released.
\<close>

definition commit_events :: "int \<Rightarrow> int \<Rightarrow> event list" where
  "commit_events l k =
     [EvLock, EvPatch l k None, EvSet ''patch-level'' (JInt l),
      EvSet ''patch-sublevel'' (JInt k), EvUnlock]"

text \<open>The two marker entries of a state as they are stored.\<close>

definition markers :: "state \<Rightarrow> jvalue option \<times> jvalue option" where
  "markers s = (data s ''patch-level'', data s ''patch-sublevel'')"

text \<open>
  The (level, sublevel) pair of the last patch function in a trace that returned \<open>nil\<close>,
  starting from a pair already committed before (or none).
\<close>

fun committed :: "event list \<Rightarrow> (int \<times> int) option \<Rightarrow> (int \<times> int) option" where
  "committed [] c = c"
| "committed (EvPatch l k None # es) c = committed es (Some (l, k))"
| "committed (_ # es) c = committed es c"

text \<open>
  The marker entries after the commit \<open>c\<close>, or the entries \<open>m0\<close> when nothing was
  committed.
\<close>

definition at_commit ::
  "(int \<times> int) option \<Rightarrow> jvalue option \<times> jvalue option \<Rightarrow> jvalue option \<times> jvalue option" where
  "at_commit c m0 = (case c of None \<Rightarrow> m0 | Some (l, k) \<Rightarrow> (Some (JInt l), Some (JInt k)))"

text \<open>The calls of patch functions that returned an error, in call order.\<close>

fun failures :: "event list \<Rightarrow> (int \<times> int \<times> error) list" where
  "failures [] = []"
| "failures (EvPatch l k (Some e) # es) = (l, k, e) # failures es"
| "failures (_ # es) = failures es"

text \<open>
  What holds of a run that began at the commit \<open>c\<close> with marker entries \<open>m0\<close>, added
  the events \<open>tr\<close> and ended in the state \<open>s'\<close>: either no patch function failed and
  the markers are at the last commit, or the run ends with the transaction of the one
  patch function that failed, which was called on a state whose markers were at the last
  commit and left the state \<open>s'\<close>.
\<close>

definition run_inv ::
  "config \<Rightarrow> (int \<times> int) option \<Rightarrow> jvalue option \<times> jvalue option \<Rightarrow>
   event list \<Rightarrow> outcome \<Rightarrow> state \<Rightarrow> bool" where
  "run_inv cfg c m0 tr out s' \<longleftrightarrow>
     (failures tr = [] \<and> markers s' = at_commit (committed tr c) m0
        \<and> (out = Return None \<or> (\<exists>n. out = Return (Some (ErrUpgrade n)))))
   \<or> (\<exists>pre l k e s.
         tr = pre @ [EvLock, EvPatch l k (Some e), EvUnlock] \<and> failures pre = []
       \<and> out = Return (Some (ErrPatch l k e))
       \<and> (sublevels cfg l ! nat k) s = (Some e, s')
       \<and> markers s = at_commit (committed pre c) m0)"

text \<open>
  A state on which \<open>Apply\<close> finds nothing to do but, at most, lowering the sublevel: no
  patch of the stored level lies beyond the stored sublevel, and the levels above it up
  to \<open>Level\<close> are registered with empty lists.
\<close>

definition settled :: "config \<Rightarrow> state \<Rightarrow> bool" where
  "settled cfg s \<longleftrightarrow>
     (\<exists>m j. stored s = Some (m, j) \<and> m \<le> Level cfg
        \<and> int (length (sublevels cfg m)) \<le> wrap_inc j
        \<and> (\<forall>l. m < l \<and> l \<le> Level cfg \<longrightarrow> patches cfg l = Some []))"

section \<open>The migration as the specification words it\<close>

text \<open>
  The specification describes the migration as a sequence of transactions rather than
  as loops over indices. The following functions follow its words; the theorems below
  compare the code with them.

  \<open>numbered k ps\<close> pairs the patch functions \<open>ps\<close> with the indices \<open>k\<close>, \<open>k + 1\<close>, ...
\<close>

fun numbered :: "int \<Rightarrow> 'a list \<Rightarrow> (int \<times> 'a) list" where
  "numbered k [] = []"
| "numbered k (p # ps) = (k, p) # numbered (k + 1) ps"

text \<open>
  Each patch runs in its own lock transaction, followed atomically by bumping the stored
  level and sublevel together; a patch function that fails aborts the run, and no bump
  is recorded for it.
\<close>

fun run_patches :: "int \<Rightarrow> (int \<times> PatchFunc) list \<Rightarrow> world \<Rightarrow> outcome \<times> world" where
  "run_patches level [] w = (Return None, w)"
| "run_patches level ((k, p) # rest) w =
     (case p (st w) of
        (Some err, s') \<Rightarrow>
          (Return (Some (ErrPatch level k err)),
           \<lparr>st = s', trace = trace w @ [EvLock, EvPatch level k (Some err), EvUnlock]\<rparr>)
      | (None, s') \<Rightarrow>
          run_patches level rest
            \<lparr>st = Set ''patch-sublevel'' (JInt k) (Set ''patch-level'' (JInt level) s'),
             trace = trace w @ [EvLock, EvPatch level k None,
                                EvSet ''patch-level'' (JInt level),
                                EvSet ''patch-sublevel'' (JInt k), EvUnlock]\<rparr>)"

text \<open>
  For every subsequent level in turn: a missing registry entry is fatal; otherwise that
  level's full sublevel sequence is applied from index 0.
\<close>

fun run_levels :: "config \<Rightarrow> int list \<Rightarrow> world \<Rightarrow> outcome \<times> world" where
  "run_levels cfg [] w = (Return None, w)"
| "run_levels cfg (level # rest) w =
     (case patches cfg level of
        None \<Rightarrow> (Return (Some (ErrUpgrade (level - 1))), w)
      | Some ps \<Rightarrow>
          (case run_patches level (numbered 0 ps) w of
             (Return None, w') \<Rightarrow> run_levels cfg rest w'
           | r \<Rightarrow> r))"

section \<open>Example inputs\<close>

definition mk_state :: "int \<Rightarrow> int \<Rightarrow> state" where
  "mk_state l k =
     \<lparr>data = [''patch-level'' \<mapsto> JInt l, ''patch-sublevel'' \<mapsto> JInt k], dirty = False\<rparr>"

definition mk_world :: "state \<Rightarrow> world" where
  "mk_world s = \<lparr>st = s, trace = []\<rparr>"

definition empty_state :: state where
  "empty_state = \<lparr>data = Map.empty, dirty = False\<rparr>"

text \<open>The package as it is before any patch is registered: level 1, sublevel 0.\<close>

definition cfg_plain :: config where
  "cfg_plain = \<lparr>Level = 1, Sublevel = 0, registry = Map.empty\<rparr>"

text \<open>Patch functions: one that records that it ran under a key, and one that fails.\<close>

definition touch :: "string \<Rightarrow> PatchFunc" where
  "touch key = (\<lambda>s. (None, Set key (JBool True) s))"

definition failing :: "string \<Rightarrow> PatchFunc" where
  "failing msg = (\<lambda>s. (Some (ErrMsg msg), s))"

text \<open>Level 1 with three sublevel patches, the software being at sublevel 2.\<close>

definition cfg_sub :: config where
  "cfg_sub = \<lparr>Level = 1, Sublevel = 2,
              registry = [1 \<mapsto> [touch ''a'', touch ''b'', touch ''c'']]\<rparr>"

text \<open>Level 3 with patches for the levels 1 and 3 but none for level 2.\<close>

definition cfg_gap :: config where
  "cfg_gap = \<lparr>Level = 3, Sublevel = 0,
              registry = [1 \<mapsto> [touch ''a''], 3 \<mapsto> [touch ''c'']]\<rparr>"

text \<open>Level 2 with two patches for level 1 and one for level 2.\<close>

definition cfg_up :: config where
  "cfg_up = \<lparr>Level = 2, Sublevel = 0,
             registry = [1 \<mapsto> [touch ''a'', touch ''b''], 2 \<mapsto> [touch ''c'']]\<rparr>"

text \<open>Level 1 whose second patch fails.\<close>

definition cfg_fail :: config where
  "cfg_fail = \<lparr>Level = 1, Sublevel = 2,
               registry = [1 \<mapsto> [touch ''a'', failing ''boom'', touch ''c'']]\<rparr>"

text \<open>A patch function that writes \<open>patch-level\<close> itself and then fails.\<close>

definition clobber :: PatchFunc where
  "clobber = (\<lambda>s. (Some (ErrMsg ''boom''), Set ''patch-level'' (JInt 99) s))"

definition cfg_clobber :: config where
  "cfg_clobber = \<lparr>Level = 1, Sublevel = 0, registry = [1 \<mapsto> [clobber]]\<rparr>"

text \<open>Level 2 with one failing patch for level 1 and no entry for level 2.\<close>

definition cfg_lowfail :: config where
  "cfg_lowfail = \<lparr>Level = 2, Sublevel = 0, registry = [1 \<mapsto> [failing ''boom'']]\<rparr>"

text \<open>A state whose level is an integer and whose sublevel is a string.\<close>

definition mk_state_undecodable :: "int \<Rightarrow> state" where
  "mk_state_undecodable l =
     \<lparr>data = [''patch-level'' \<mapsto> JInt l, ''patch-sublevel'' \<mapsto> JStr ''y''], dirty = False\<rparr>"

section \<open>Basic facts\<close>

lemma st_Lock [simp]: "st (Lock w) = st w"
  by (simp add: Lock_def)

lemma st_Unlock [simp]: "st (Unlock w) = st w"
  by (simp add: Unlock_def)

lemma st_wSet [simp]: "st (wSet key v w) = Set key v (st w)"
  by (simp add: wSet_def)

lemma trace_Lock [simp]: "trace (Lock w) = trace w @ [EvLock]"
  by (simp add: Lock_def)

lemma trace_Unlock [simp]: "trace (Unlock w) = trace w @ [EvUnlock]"
  by (simp add: Unlock_def)

lemma trace_wSet [simp]: "trace (wSet key v w) = trace w @ [EvSet key v]"
  by (simp add: wSet_def)

lemma Get_marker:
  "Get key s 0 =
     (case marker key s of
        None \<Rightarrow> (Some (ErrDecode key), 0)
      | Some n \<Rightarrow> (if data s key = None then Some ErrNoState else None, n))"
  by (simp add: Get_def marker_def split: option.splits jvalue.splits)

lemma Apply_read_marker:
  "Apply_read s =
     (case marker ''patch-level'' s of
        None \<Rightarrow> (Some (ErrDecode ''patch-level''), 0, 0)
      | Some l \<Rightarrow>
         (case marker ''patch-sublevel'' s of
            None \<Rightarrow> (Some (ErrDecode ''patch-sublevel''), l, 0)
          | Some k \<Rightarrow> (if data s ''patch-sublevel'' = None then Some ErrNoState else None, l, k)))"
  by (auto simp add: Apply_read_def Get_marker split: option.splits)

lemma Apply_stored:
  "stored (st w) = Some (l, k) \<Longrightarrow> Apply cfg w = Apply_body cfg l k (Unlock (Lock w))"
  by (auto simp add: Apply_def Apply_read_marker stored_def Let_def split: option.splits)

lemma stored_mk_state [simp]: "stored (mk_state l k) = Some (l, k)"
  by (simp add: stored_def marker_def mk_state_def)

lemma st_mk_world [simp]: "st (mk_world s) = s"
  by (simp add: mk_world_def)

lemma trace_mk_world [simp]: "trace (mk_world s) = []"
  by (simp add: mk_world_def)

declare applySublevelPatches.simps [simp del]

declare Apply_levels.simps [simp del]

lemma calls_append [simp]: "calls (a @ b) = calls a @ calls b"
  by (induction a rule: calls.induct) auto

lemma new_events_append [simp]: "trace w' = trace w @ tr \<Longrightarrow> new_events w w' = tr"
  by (simp add: new_events_def)

lemma calls_commits: "calls (concat (map (commit_events l) ks)) = map (Pair l) ks"
  by (induction ks) (auto simp add: commit_events_def)

lemma map_fst_numbered: "map fst (numbered k ps) = [k..k + int (length ps) - 1]"
proof (induction ps arbitrary: k)
  case Nil
  then show ?case by simp
next
  case (Cons p ps)
  have "[k..k + int (length (p # ps)) - 1] = k # [k + 1..k + 1 + int (length ps) - 1]"
    by (subst upto_rec1) (auto simp add: algebra_simps)
  then show ?case using Cons.IH [of "k + 1"] by simp
qed

lemma applyOne_eq:
  "applyOne p w l k =
     (case p (st w) of
        (Some err, s') \<Rightarrow>
          (Some err, \<lparr>st = s', trace = trace w @ [EvLock, EvPatch l k (Some err), EvUnlock]\<rparr>)
      | (None, s') \<Rightarrow>
          (None,
           \<lparr>st = Set ''patch-sublevel'' (JInt k) (Set ''patch-level'' (JInt l) s'),
            trace = trace w @ [EvLock, EvPatch l k None, EvSet ''patch-level'' (JInt l),
                               EvSet ''patch-sublevel'' (JInt k), EvUnlock]\<rparr>))"
  by (simp add: applyOne_def Lock_def Unlock_def wSet_def Let_def split: prod.splits option.splits)

lemma Apply_body_pending:
  "(if j < int (length (sublevels cfg l))
    then applySublevelPatches cfg l j w else (Return None, w))
   = applySublevelPatches cfg l j w"
proof (cases "j < int (length (sublevels cfg l))")
  case True
  then show ?thesis by simp
next
  case False
  then show ?thesis by (subst applySublevelPatches.simps) simp
qed

lemma length_patches: "patches cfg l = Some ps \<Longrightarrow> length ps \<le> max_len"
  by (auto simp add: patches_def)

lemma length_sublevels: "int (length (sublevels cfg l)) \<le> max_int"
proof (cases "patches cfg l")
  case None
  then show ?thesis by (simp add: sublevels_def max_int_def)
next
  case (Some ps)
  then have "length ps \<le> max_len" by (rule length_patches)
  then show ?thesis using Some by (simp add: sublevels_def max_int_def max_len_def)
qed

lemma patches_registry:
  "registry cfg l = Some ps \<Longrightarrow> length ps \<le> max_len \<Longrightarrow> patches cfg l = Some ps"
  by (simp add: patches_def)

lemma patches_unregistered: "registry cfg l = None \<Longrightarrow> patches cfg l = None"
  by (simp add: patches_def)

lemma wrap_inc_nonneg: "0 \<le> wrap_inc x \<Longrightarrow> wrap_inc x = x + 1"
  by (simp add: wrap_inc_def min_int_def split: if_splits)

lemma wrap_inc_index:
  "x + 1 < int (length (sublevels cfg l)) \<Longrightarrow> wrap_inc x = x + 1"
  using length_sublevels [of cfg l] by (simp add: wrap_inc_def)

lemma wrap_inc_small: "x < max_int \<Longrightarrow> wrap_inc x = x + 1"
  by (simp add: wrap_inc_def)

lemma applySublevelPatches_negative:
  "k < 0 \<Longrightarrow>
   applySublevelPatches cfg l k w = (Panic ''runtime error: index out of range'', w)"
  by (subst applySublevelPatches.simps) simp

lemma Apply_undecodable_sublevel:
  "marker ''patch-level'' (st w) = Some l \<Longrightarrow> marker ''patch-sublevel'' (st w) = None \<Longrightarrow>
   Apply cfg w = (Return (Some (ErrDecode ''patch-sublevel'')), Unlock (Lock w))"
  by (simp add: Apply_def Apply_read_marker Let_def)

section \<open>The early exits of Apply\<close>

text \<open>
  C7. When the stored level and sublevel are those of the running software, \<open>Apply\<close>
  returns \<open>nil\<close>, leaves the state as it is and calls no patch function: all it does is
  take and release the lock for reading the markers.
\<close>

theorem Apply_same_level_sublevel_noop:
  assumes "stored (st w) = Some (Level cfg, Sublevel cfg)"
  shows "fst (Apply cfg w) = Return None
       \<and> st (snd (Apply cfg w)) = st w
       \<and> trace (snd (Apply cfg w)) = trace w @ [EvLock, EvUnlock]
       \<and> calls (new_events w (snd (Apply cfg w))) = []"
  using assms by (simp add: Apply_stored Apply_body_def new_events_def)

theorem Apply_same_level_sublevel_noop_witness:
  "stored (st (mk_world (mk_state 1 0))) = Some (Level cfg_plain, Sublevel cfg_plain)
   \<and> fst (Apply cfg_plain (mk_world (mk_state 1 0))) = Return None
   \<and> st (snd (Apply cfg_plain (mk_world (mk_state 1 0)))) = mk_state 1 0
   \<and> trace (snd (Apply cfg_plain (mk_world (mk_state 1 0)))) = [EvLock, EvUnlock]"
proof -
  have h: "stored (st (mk_world (mk_state 1 0))) = Some (Level cfg_plain, Sublevel cfg_plain)"
    by (simp add: cfg_plain_def)
  show ?thesis
    using h Apply_same_level_sublevel_noop [OF h] by simp
qed

text \<open>
  C3, as the code has it. When both markers can be read and the stored level is above
  the running \<open>Level\<close>, \<open>Apply\<close> returns the error
  \<open>cannot downgrade: software version is too old for the current system state\<close> (the
  spec's StartupIncompatible), leaves the state as it is and calls no patch function.
\<close>

theorem Apply_state_too_new:
  assumes "stored (st w) = Some (l, k)" and "l > Level cfg"
  shows "fst (Apply cfg w) = Return (Some (ErrDowngrade l))
       \<and> st (snd (Apply cfg w)) = st w
       \<and> trace (snd (Apply cfg w)) = trace w @ [EvLock, EvUnlock]
       \<and> calls (new_events w (snd (Apply cfg w))) = []"
  using assms by (simp add: Apply_stored Apply_body_def new_events_def)

theorem Apply_state_too_new_witness:
  "stored (st (mk_world (mk_state 2 0))) = Some (2, 0) \<and> 2 > Level cfg_plain
   \<and> fst (Apply cfg_plain (mk_world (mk_state 2 0))) = Return (Some (ErrDowngrade 2))
   \<and> st (snd (Apply cfg_plain (mk_world (mk_state 2 0)))) = mk_state 2 0
   \<and> trace (snd (Apply cfg_plain (mk_world (mk_state 2 0)))) = [EvLock, EvUnlock]"
proof -
  have h: "stored (st (mk_world (mk_state 2 0))) = Some (2, 0)"
    by simp
  have g: "2 > Level cfg_plain"
    by (simp add: cfg_plain_def)
  show ?thesis
    using h g Apply_state_too_new [OF h g] by simp
qed

text \<open>
  C3 as it is worded, for every state whose stored level is above \<open>Level\<close>, does not
  hold: \<open>Apply\<close> reads both markers before it compares, and a sublevel that does not
  decode is answered first. Here the level is 5, above the running level 1, the sublevel
  is a string, and \<open>Apply\<close> returns the decode error of \<open>patch-sublevel\<close>.
\<close>

theorem Apply_state_too_new_counterexample:
  "data (st (mk_world (mk_state_undecodable 5))) ''patch-level'' = Some (JInt 5)
   \<and> 5 > Level cfg_plain
   \<and> fst (Apply cfg_plain (mk_world (mk_state_undecodable 5))) =
       Return (Some (ErrDecode ''patch-sublevel''))
   \<and> fst (Apply cfg_plain (mk_world (mk_state_undecodable 5))) \<noteq>
       Return (Some (ErrDowngrade 5))"
proof -
  have l: "marker ''patch-level'' (st (mk_world (mk_state_undecodable 5))) = Some 5"
    by (simp add: marker_def mk_state_undecodable_def)
  have k: "marker ''patch-sublevel'' (st (mk_world (mk_state_undecodable 5))) = None"
    by (simp add: marker_def mk_state_undecodable_def)
  have ap: "Apply cfg_plain (mk_world (mk_state_undecodable 5)) =
      (Return (Some (ErrDecode ''patch-sublevel'')), Unlock (Lock (mk_world (mk_state_undecodable 5))))"
    using l k by (rule Apply_undecodable_sublevel)
  show ?thesis
    unfolding ap by (simp add: mk_state_undecodable_def cfg_plain_def)
qed

text \<open>
  C6. When the stored level is the running \<open>Level\<close> and the stored sublevel is above the
  running \<open>Sublevel\<close>, \<open>Apply\<close> returns \<open>nil\<close> after one \<open>Set\<close> of \<open>patch-sublevel\<close> to
  \<open>Sublevel\<close> under the lock: every other key keeps its value, \<open>patch-level\<close> among them,
  and no patch function is called.
\<close>

theorem Apply_sublevel_downgrade:
  assumes "stored (st w) = Some (Level cfg, k)" and "k > Sublevel cfg"
  shows "fst (Apply cfg w) = Return None
       \<and> st (snd (Apply cfg w)) = Set ''patch-sublevel'' (JInt (Sublevel cfg)) (st w)
       \<and> data (st (snd (Apply cfg w))) ''patch-sublevel'' = Some (JInt (Sublevel cfg))
       \<and> (\<forall>key. key \<noteq> ''patch-sublevel'' \<longrightarrow>
             data (st (snd (Apply cfg w))) key = data (st w) key)
       \<and> trace (snd (Apply cfg w)) =
           trace w @ [EvLock, EvUnlock,
                      EvLock, EvSet ''patch-sublevel'' (JInt (Sublevel cfg)), EvUnlock]
       \<and> calls (new_events w (snd (Apply cfg w))) = []"
  using assms by (simp add: Apply_stored Apply_body_def Set_def new_events_def)

theorem Apply_sublevel_downgrade_witness:
  "stored (st (mk_world (mk_state 1 3))) = Some (Level cfg_plain, 3) \<and> 3 > Sublevel cfg_plain
   \<and> fst (Apply cfg_plain (mk_world (mk_state 1 3))) = Return None
   \<and> data (st (snd (Apply cfg_plain (mk_world (mk_state 1 3))))) ''patch-sublevel'' = Some (JInt 0)
   \<and> data (st (snd (Apply cfg_plain (mk_world (mk_state 1 3))))) ''patch-level'' = Some (JInt 1)
   \<and> trace (snd (Apply cfg_plain (mk_world (mk_state 1 3)))) =
       [EvLock, EvUnlock, EvLock, EvSet ''patch-sublevel'' (JInt 0), EvUnlock]"
proof -
  have h: "stored (st (mk_world (mk_state 1 3))) = Some (Level cfg_plain, 3)"
    by (simp add: cfg_plain_def)
  have g: "3 > Sublevel cfg_plain"
    by (simp add: cfg_plain_def)
  show ?thesis
    using h g Apply_sublevel_downgrade [OF h g]
    by (simp add: cfg_plain_def Set_def mk_state_def)
qed

section \<open>Init\<close>

text \<open>
  C8. On a state that has neither marker key, \<open>Init\<close> sets \<open>patch-level\<close> to \<open>Level\<close>
  and \<open>patch-sublevel\<close> to \<open>Sublevel\<close> under one lock and calls no patch function.
\<close>

theorem Init_stamps_new_state:
  assumes "data (st w) ''patch-level'' = None" and "data (st w) ''patch-sublevel'' = None"
  shows "fst (Init cfg w) = Return None
       \<and> st (snd (Init cfg w)) =
           Set ''patch-sublevel'' (JInt (Sublevel cfg)) (Set ''patch-level'' (JInt (Level cfg)) (st w))
       \<and> data (st (snd (Init cfg w))) ''patch-level'' = Some (JInt (Level cfg))
       \<and> data (st (snd (Init cfg w))) ''patch-sublevel'' = Some (JInt (Sublevel cfg))
       \<and> trace (snd (Init cfg w)) =
           trace w @ [EvLock, EvSet ''patch-level'' (JInt (Level cfg)),
                      EvSet ''patch-sublevel'' (JInt (Sublevel cfg)), EvUnlock]
       \<and> calls (new_events w (snd (Init cfg w))) = []"
  using assms by (simp add: Init_def Get_def Set_def Let_def new_events_def)

theorem Init_stamps_new_state_witness:
  "data (st (mk_world empty_state)) ''patch-level'' = None
   \<and> data (st (mk_world empty_state)) ''patch-sublevel'' = None
   \<and> fst (Init cfg_plain (mk_world empty_state)) = Return None
   \<and> data (st (snd (Init cfg_plain (mk_world empty_state)))) ''patch-level'' = Some (JInt 1)
   \<and> data (st (snd (Init cfg_plain (mk_world empty_state)))) ''patch-sublevel'' = Some (JInt 0)
   \<and> trace (snd (Init cfg_plain (mk_world empty_state))) =
       [EvLock, EvSet ''patch-level'' (JInt 1), EvSet ''patch-sublevel'' (JInt 0), EvUnlock]"
proof -
  have h: "data (st (mk_world empty_state)) ''patch-level'' = None"
    by (simp add: empty_state_def)
  have g: "data (st (mk_world empty_state)) ''patch-sublevel'' = None"
    by (simp add: empty_state_def)
  show ?thesis
    using h g Init_stamps_new_state [OF h g, of cfg_plain]
    by (simp add: cfg_plain_def Set_def)
qed

text \<open>
  C9. \<open>Init\<close> panics exactly when one of the two marker keys is present (whatever it
  holds): with the first message when \<open>patch-level\<close> is there, with the second when only
  \<open>patch-sublevel\<close> is. On a state with neither key it returns normally.
\<close>

theorem Init_panics_unless_empty:
  "fst (Init cfg w) =
     (if data (st w) ''patch-level'' = None
      then (if data (st w) ''patch-sublevel'' = None
            then Return None
            else Panic ''internal error: expected empty state, attempting to override patch-sublevel without actual patching'')
      else Panic ''internal error: expected empty state, attempting to override patch-level without actual patching'')"
  by (auto simp add: Init_def Get_def Set_def Let_def split: option.splits jvalue.splits)

section \<open>Reading the markers\<close>

text \<open>
  C10. \<open>Apply\<close> reads each marker as \<open>marker\<close> says: an absent key counts as 0, and
  the rest of \<open>Apply\<close> runs with that value exactly as with a stored integer. A key that
  does not decode makes \<open>Apply\<close> return the decode error at once: the state is
  untouched and nothing but the read lock is in the trace. The level is read first, so
  its error wins.
\<close>

theorem Apply_reads_markers:
  "Apply cfg w =
     (case marker ''patch-level'' (st w) of
        None \<Rightarrow> (Return (Some (ErrDecode ''patch-level'')), Unlock (Lock w))
      | Some l \<Rightarrow>
          (case marker ''patch-sublevel'' (st w) of
             None \<Rightarrow> (Return (Some (ErrDecode ''patch-sublevel'')), Unlock (Lock w))
           | Some k \<Rightarrow> Apply_body cfg l k (Unlock (Lock w))))
   \<and> marker key (s\<lparr>data := (data s)(key := None)\<rparr>) = Some 0
   \<and> marker key (s\<lparr>data := (data s)(key \<mapsto> JInt n)\<rparr>) = Some n
   \<and> marker key (s\<lparr>data := (data s)(key \<mapsto> JStr str)\<rparr>) = None
   \<and> marker key (s\<lparr>data := (data s)(key \<mapsto> JBool b)\<rparr>) = None"
  by (auto simp add: Apply_def Apply_read_marker Let_def marker_def split: option.splits)

section \<open>The loops run the transactions of the specification\<close>

lemma applySublevelPatches_run:
  "0 \<le> k \<Longrightarrow>
   applySublevelPatches cfg l k w = run_patches l (numbered k (drop (nat k) (sublevels cfg l))) w"
proof (induction cfg l k w rule: applySublevelPatches.induct)
  case (1 cfg level sublevel w)
  show ?case
  proof (cases "sublevel < int (length (sublevels cfg level))")
    case False
    then show ?thesis
      by (subst applySublevelPatches.simps) simp
  next
    case True
    with "1.prems" have lt: "nat sublevel < length (sublevels cfg level)" by linarith
    have nxt: "nat (sublevel + 1) = Suc (nat sublevel)" using "1.prems" by linarith
    have dr: "drop (nat sublevel) (sublevels cfg level) =
              sublevels cfg level ! nat sublevel # drop (nat (sublevel + 1)) (sublevels cfg level)"
      using lt by (simp add: nxt Cons_nth_drop_Suc)
    obtain err w' where one: "applyOne (sublevels cfg level ! nat sublevel) w level sublevel = (err, w')"
      by (cases "applyOne (sublevels cfg level ! nat sublevel) w level sublevel")
    show ?thesis
    proof (cases err)
      case None
      have ih: "applySublevelPatches cfg level (sublevel + 1) w' =
                run_patches level (numbered (sublevel + 1)
                   (drop (nat (sublevel + 1)) (sublevels cfg level))) w'"
        using "1.IH" True "1.prems" one None by simp
      have "applySublevelPatches cfg level sublevel w =
            applySublevelPatches cfg level (sublevel + 1) w'"
        using True "1.prems" one None by (subst applySublevelPatches.simps) simp
      also note ih
      also have "run_patches level (numbered (sublevel + 1)
                   (drop (nat (sublevel + 1)) (sublevels cfg level))) w' =
                 run_patches level (numbered sublevel
                   (drop (nat sublevel) (sublevels cfg level))) w"
        using one None
        by (subst dr) (auto simp add: applyOne_eq split: prod.splits option.splits)
      finally show ?thesis .
    next
      case (Some e)
      have "applySublevelPatches cfg level sublevel w = (Return (Some (ErrPatch level sublevel e)), w')"
        using True "1.prems" one Some by (subst applySublevelPatches.simps) simp
      also have "\<dots> = run_patches level (numbered sublevel
                   (drop (nat sublevel) (sublevels cfg level))) w"
        using one Some
        by (subst dr) (auto simp add: applyOne_eq split: prod.splits option.splits)
      finally show ?thesis .
    qed
  qed
qed

lemma Apply_levels_run: "Apply_levels cfg l w = run_levels cfg [l..Level cfg] w"
proof (induction cfg l w rule: Apply_levels.induct)
  case (1 cfg level w)
  show ?case
  proof (cases "level \<le> Level cfg")
    case False
    then show ?thesis
      by (subst Apply_levels.simps) simp
  next
    case True
    then have up: "[level..Level cfg] = level # [level + 1..Level cfg]"
      by (simp add: upto_rec1)
    show ?thesis
    proof (cases "patches cfg level")
      case None
      then show ?thesis using True up
        by (subst Apply_levels.simps) simp
    next
      case (Some ps)
      then have sl: "sublevels cfg level = ps" by (simp add: sublevels_def)
      have run0: "applySublevelPatches cfg level 0 w = run_patches level (numbered 0 ps) w"
        using applySublevelPatches_run [of 0 cfg level w] sl by simp
      obtain out w' where res: "run_patches level (numbered 0 ps) w = (out, w')"
        by (cases "run_patches level (numbered 0 ps) w")
      show ?thesis
      proof (cases "out = Return None")
        case ok: True
        have "Apply_levels cfg (level + 1) w' = run_levels cfg [level + 1..Level cfg] w'"
          using "1.IH" True Some run0 res ok by simp
        then show ?thesis
          using True Some run0 res ok up
          by (subst Apply_levels.simps) simp
      next
        case False
        then show ?thesis
          using True Some run0 res up
          by (subst Apply_levels.simps) (cases out; auto split: option.splits)
      qed
    qed
  qed
qed

lemma run_patches_ok:
  "run_patches l xs w = (Return None, w') \<Longrightarrow>
   trace w' = trace w @ concat (map (commit_events l) (map fst xs))
   \<and> (xs \<noteq> [] \<longrightarrow> data (st w') ''patch-level'' = Some (JInt l)
                  \<and> data (st w') ''patch-sublevel'' = Some (JInt (fst (last xs))))
   \<and> (xs = [] \<longrightarrow> w' = w)"
proof (induction xs arbitrary: w)
  case Nil
  then show ?case by simp
next
  case (Cons x xs)
  obtain k p where x: "x = (k, p)" by (cases x)
  obtain err s' where p: "p (st w) = (err, s')" by (cases "p (st w)")
  from Cons.prems x p have none: "err = None"
    by (cases err) auto
  let ?w1 = "\<lparr>st = Set ''patch-sublevel'' (JInt k) (Set ''patch-level'' (JInt l) s'),
              trace = trace w @ commit_events l k\<rparr>"
  from Cons.prems x p none have rest: "run_patches l xs ?w1 = (Return None, w')"
    by (simp add: commit_events_def)
  from Cons.IH [OF rest] x show ?case
    by (cases "xs = []") (auto simp add: Set_def)
qed

lemma run_patches_calls:
  "run_patches l xs w = (out, w') \<Longrightarrow>
   \<exists>tr. trace w' = trace w @ tr \<and> (\<forall>c\<in>set (calls tr). fst c = l)
      \<and> (out = Return None \<or> (\<exists>k e. out = Return (Some (ErrPatch l k e))))"
proof (induction xs arbitrary: w)
  case Nil
  then show ?case by simp
next
  case (Cons x xs)
  obtain k p where x: "x = (k, p)" by (cases x)
  obtain err s' where p: "p (st w) = (err, s')" by (cases "p (st w)")
  show ?case
  proof (cases err)
    case (Some e)
    with Cons.prems x p show ?thesis by auto
  next
    case None
    let ?w1 = "\<lparr>st = Set ''patch-sublevel'' (JInt k) (Set ''patch-level'' (JInt l) s'),
                trace = trace w @ commit_events l k\<rparr>"
    from Cons.prems x p None have rest: "run_patches l xs ?w1 = (out, w')"
      by (simp add: commit_events_def)
    from Cons.IH [OF rest] obtain tr where
      tr: "trace w' = trace ?w1 @ tr" "\<forall>c\<in>set (calls tr). fst c = l"
          "out = Return None \<or> (\<exists>k e. out = Return (Some (ErrPatch l k e)))"
      by blast
    have "trace w' = trace w @ (commit_events l k @ tr)" using tr(1) by simp
    moreover have "\<forall>c\<in>set (calls (commit_events l k @ tr)). fst c = l"
      using tr(2) by (auto simp add: commit_events_def)
    ultimately show ?thesis using tr(3) by blast
  qed
qed

lemma run_patches_calls_prefix:
  "run_patches l xs w = (out, w') \<Longrightarrow>
   \<exists>n. calls (new_events w w') = map (Pair l) (take n (map fst xs))"
proof (induction xs arbitrary: w)
  case Nil
  then have "calls (new_events w w') = map (Pair l) (take 0 (map fst []))"
    by (simp add: new_events_def)
  then show ?case by blast
next
  case (Cons x xs)
  obtain k p where x: "x = (k, p)" by (cases x)
  obtain err s' where p: "p (st w) = (err, s')" by (cases "p (st w)")
  show ?case
  proof (cases err)
    case (Some e)
    with Cons.prems x p
    have "calls (new_events w w') = map (Pair l) (take 1 (map fst (x # xs)))"
      by (auto simp add: new_events_def)
    then show ?thesis by blast
  next
    case None
    let ?w1 = "\<lparr>st = Set ''patch-sublevel'' (JInt k) (Set ''patch-level'' (JInt l) s'),
                trace = trace w @ commit_events l k\<rparr>"
    from Cons.prems x p None have rest: "run_patches l xs ?w1 = (out, w')"
      by (simp add: commit_events_def)
    from Cons.IH [OF rest] obtain n where
      n: "calls (new_events ?w1 w') = map (Pair l) (take n (map fst xs))" by blast
    from run_patches_calls [OF rest] obtain tr where tr: "trace w' = trace ?w1 @ tr" by blast
    then have "trace w' = trace w @ (commit_events l k @ tr)" by simp
    then have "calls (new_events w w') = calls (commit_events l k) @ calls tr"
      by (simp del: append_assoc)
    also have "calls tr = map (Pair l) (take n (map fst xs))"
      using n tr by simp
    finally have "calls (new_events w w') = map (Pair l) (take (Suc n) (map fst (x # xs)))"
      using x by (simp add: commit_events_def)
    then show ?thesis by blast
  qed
qed

lemma applySublevelPatches_calls:
  assumes "applySublevelPatches cfg l k w = (out, w')"
  shows "\<exists>tr. trace w' = trace w @ tr \<and> (\<forall>c\<in>set (calls tr). fst c = l)
      \<and> (out = Return None \<or> (\<exists>k' e. out = Return (Some (ErrPatch l k' e)))
          \<or> (k < 0 \<and> tr = [] \<and> (\<exists>msg. out = Panic msg)))"
proof (cases "0 \<le> k")
  case True
  with assms have "run_patches l (numbered k (drop (nat k) (sublevels cfg l))) w = (out, w')"
    by (simp add: applySublevelPatches_run)
  from run_patches_calls [OF this] show ?thesis by blast
next
  case False
  then have "applySublevelPatches cfg l k w = (Panic ''runtime error: index out of range'', w)"
    by (subst applySublevelPatches.simps) simp
  with assms False show ?thesis by auto
qed

lemma run_levels_missing:
  "run_levels cfg (pre @ m # post) w = (out, w') \<Longrightarrow> patches cfg m = None \<Longrightarrow>
   \<forall>l\<in>set pre. patches cfg l \<noteq> None \<Longrightarrow>
   \<exists>tr. trace w' = trace w @ tr \<and> (\<forall>c\<in>set (calls tr). fst c \<in> set pre)
      \<and> (out = Return (Some (ErrUpgrade (m - 1)))
          \<or> (\<exists>l' k' e. l' \<in> set pre \<and> out = Return (Some (ErrPatch l' k' e))))"
proof (induction pre arbitrary: w)
  case Nil
  then show ?case by simp
next
  case (Cons a pre)
  from Cons.prems(3) obtain ps where ps: "patches cfg a = Some ps" by auto
  obtain o1 w1 where r1: "run_patches a (numbered 0 ps) w = (o1, w1)"
    by (cases "run_patches a (numbered 0 ps) w")
  from run_patches_calls [OF r1] obtain tr1 where
    tr1: "trace w1 = trace w @ tr1" "\<forall>c\<in>set (calls tr1). fst c = a"
         "o1 = Return None \<or> (\<exists>k e. o1 = Return (Some (ErrPatch a k e)))"
    by blast
  show ?case
  proof (cases "o1 = Return None")
    case True
    with Cons.prems(1) ps r1 have rest: "run_levels cfg (pre @ m # post) w1 = (out, w')"
      by simp
    from Cons.IH [OF rest Cons.prems(2)] Cons.prems(3) obtain tr where
      tr: "trace w' = trace w1 @ tr" "\<forall>c\<in>set (calls tr). fst c \<in> set pre"
          "out = Return (Some (ErrUpgrade (m - 1)))
           \<or> (\<exists>l' k' e. l' \<in> set pre \<and> out = Return (Some (ErrPatch l' k' e)))"
      by auto
    have "trace w' = trace w @ (tr1 @ tr)" using tr(1) tr1(1) by simp
    moreover have "\<forall>c\<in>set (calls (tr1 @ tr)). fst c \<in> set (a # pre)"
      using tr(2) tr1(2) by auto
    ultimately show ?thesis using tr(3) by (intro exI [of _ "tr1 @ tr"]) auto
  next
    case False
    with tr1(3) obtain k e where o1: "o1 = Return (Some (ErrPatch a k e))" by blast
    with Cons.prems(1) ps r1 have "out = o1" "w' = w1" by auto
    then show ?thesis using tr1 o1 by (intro exI [of _ tr1]) auto
  qed
qed

lemma map_fst_numbered_drop:
  "0 \<le> j \<Longrightarrow> map fst (numbered j (drop (nat j) ps)) = [j..int (length ps) - 1]"
proof (cases "nat j \<le> length ps")
  case True
  assume "0 \<le> j"
  with True have "j + int (length (drop (nat j) ps)) - 1 = int (length ps) - 1"
    by (simp add: of_nat_diff)
  then show ?thesis by (simp only: map_fst_numbered)
next
  case False
  assume "0 \<le> j"
  with False have "drop (nat j) ps = []" "int (length ps) - 1 < j" by simp_all
  then show ?thesis by simp
qed

lemma last_numbered: "ps \<noteq> [] \<Longrightarrow> fst (last (numbered k ps)) = k + int (length ps) - 1"
proof -
  assume ne: "ps \<noteq> []"
  then have n: "numbered k ps \<noteq> []" by (cases ps) auto
  have "fst (last (numbered k ps)) = last (map fst (numbered k ps))"
    using n by (simp add: last_map)
  also have "\<dots> = last [k..k + int (length ps) - 1]" by (simp add: map_fst_numbered)
  also have "\<dots> = k + int (length ps) - 1"
    using ne by (simp add: upto_rec2 [of k "k + int (length ps) - 1"])
  finally show ?thesis .
qed

lemma in_numbered:
  "(k, p) \<in> set (numbered k0 ys) \<Longrightarrow>
   k0 \<le> k \<and> k < k0 + int (length ys) \<and> p = ys ! nat (k - k0)"
proof (induction ys arbitrary: k0)
  case Nil
  then show ?case by simp
next
  case (Cons y ys)
  show ?case
  proof (cases "k = k0")
    case True
    with Cons.prems Cons.IH [of "k0 + 1"] show ?thesis by auto
  next
    case False
    with Cons.prems have "(k, p) \<in> set (numbered (k0 + 1) ys)" by simp
    from Cons.IH [OF this] have "k0 + 1 \<le> k" "k < k0 + 1 + int (length ys)"
      "p = ys ! nat (k - (k0 + 1))" by simp_all
    moreover have "nat (k - k0) = Suc (nat (k - (k0 + 1)))" using \<open>k0 + 1 \<le> k\<close> by linarith
    ultimately show ?thesis by simp
  qed
qed

lemma in_numbered_drop:
  assumes "(k, p) \<in> set (numbered k0 (drop (nat k0) ps))" and "0 \<le> k0"
  shows "p = ps ! nat k"
proof -
  from in_numbered [OF assms(1)] have a: "k0 \<le> k" "k < k0 + int (length (drop (nat k0) ps))"
    and p: "p = drop (nat k0) ps ! nat (k - k0)" by simp_all
  have "nat k0 \<le> length ps" using a assms(2) by simp
  then have "drop (nat k0) ps ! nat (k - k0) = ps ! (nat k0 + nat (k - k0))"
    by simp
  moreover have "nat k0 + nat (k - k0) = nat k" using a(1) assms(2) by linarith
  ultimately show ?thesis using p by simp
qed

lemma run_levels_empty:
  "\<forall>l\<in>set ls. patches cfg l = Some [] \<Longrightarrow> run_levels cfg ls w = (Return None, w)"
  by (induction ls) auto

lemma run_levels_ok:
  "run_levels cfg ls w = (Return None, w') \<Longrightarrow>
     (w' = w \<and> (\<forall>l\<in>set ls. patches cfg l = Some []))
   \<or> (\<exists>pre m post ps. ls = pre @ m # post \<and> patches cfg m = Some ps \<and> ps \<noteq> []
         \<and> (\<forall>l\<in>set post. patches cfg l = Some [])
         \<and> data (st w') ''patch-level'' = Some (JInt m)
         \<and> data (st w') ''patch-sublevel'' = Some (JInt (int (length ps) - 1)))"
proof (induction ls arbitrary: w)
  case Nil
  then show ?case by simp
next
  case (Cons a ls)
  from Cons.prems obtain ps where ps: "patches cfg a = Some ps"
    by (cases "patches cfg a") auto
  obtain o1 w1 where r1: "run_patches a (numbered 0 ps) w = (o1, w1)"
    by (cases "run_patches a (numbered 0 ps) w")
  from Cons.prems ps r1 have o1: "o1 = Return None"
    by (cases o1) (auto split: option.splits)
  with Cons.prems ps r1 have rest: "run_levels cfg ls w1 = (Return None, w')" by simp
  from r1 o1 have r1': "run_patches a (numbered 0 ps) w = (Return None, w1)" by simp
  from Cons.IH [OF rest] show ?case
  proof
    assume same: "w' = w1 \<and> (\<forall>l\<in>set ls. patches cfg l = Some [])"
    show ?thesis
    proof (cases "ps = []")
      case True
      with r1' have "w1 = w" by simp
      with same ps True show ?thesis by auto
    next
      case False
      then have ne: "numbered 0 ps \<noteq> []" by (cases ps) auto
      from run_patches_ok [OF r1'] ne
      have "data (st w1) ''patch-level'' = Some (JInt a)"
        and "data (st w1) ''patch-sublevel'' = Some (JInt (fst (last (numbered 0 ps))))"
        by simp_all
      then have "data (st w') ''patch-level'' = Some (JInt a)"
        and "data (st w') ''patch-sublevel'' = Some (JInt (int (length ps) - 1))"
        using same last_numbered [OF False, of 0] by simp_all
      with ps False same have
        "a # ls = [] @ a # ls \<and> patches cfg a = Some ps \<and> ps \<noteq> []
         \<and> (\<forall>l\<in>set ls. patches cfg l = Some [])
         \<and> data (st w') ''patch-level'' = Some (JInt a)
         \<and> data (st w') ''patch-sublevel'' = Some (JInt (int (length ps) - 1))"
        by simp
      then show ?thesis by blast
    qed
  next
    assume "\<exists>pre m post ps. ls = pre @ m # post \<and> patches cfg m = Some ps \<and> ps \<noteq> []
         \<and> (\<forall>l\<in>set post. patches cfg l = Some [])
         \<and> data (st w') ''patch-level'' = Some (JInt m)
         \<and> data (st w') ''patch-sublevel'' = Some (JInt (int (length ps) - 1))"
    then obtain pre m post qs where
      "ls = pre @ m # post" "patches cfg m = Some qs" "qs \<noteq> []"
      "\<forall>l\<in>set post. patches cfg l = Some []"
      "data (st w') ''patch-level'' = Some (JInt m)"
      "data (st w') ''patch-sublevel'' = Some (JInt (int (length qs) - 1))"
      by blast
    then have "a # ls = (a # pre) @ m # post \<and> patches cfg m = Some qs \<and> qs \<noteq> []
         \<and> (\<forall>l\<in>set post. patches cfg l = Some [])
         \<and> data (st w') ''patch-level'' = Some (JInt m)
         \<and> data (st w') ''patch-sublevel'' = Some (JInt (int (length qs) - 1))"
      by simp
    then show ?thesis by blast
  qed
qed

lemma run_levels_ok_trace:
  "run_levels cfg ls w = (Return None, w') \<Longrightarrow>
   (\<forall>m\<in>set ls. patches cfg m \<noteq> None)
   \<and> trace w' = trace w @
       concat (map (\<lambda>m. concat (map (commit_events m) [0..int (length (sublevels cfg m)) - 1])) ls)"
proof (induction ls arbitrary: w)
  case Nil
  then show ?case by simp
next
  case (Cons a ls)
  from Cons.prems obtain ps where ps: "patches cfg a = Some ps"
    by (cases "patches cfg a") auto
  then have sl: "sublevels cfg a = ps" by (simp add: sublevels_def)
  obtain o1 w1 where r1: "run_patches a (numbered 0 ps) w = (o1, w1)"
    by (cases "run_patches a (numbered 0 ps) w")
  from Cons.prems ps r1 have o1: "o1 = Return None"
    by (cases o1) (auto split: option.splits)
  with Cons.prems ps r1 have rest: "run_levels cfg ls w1 = (Return None, w')" by simp
  from r1 o1 have "run_patches a (numbered 0 ps) w = (Return None, w1)" by simp
  from run_patches_ok [OF this]
  have t1: "trace w1 = trace w @ concat (map (commit_events a) [0..int (length ps) - 1])"
    by (simp add: map_fst_numbered)
  from Cons.IH [OF rest] t1 ps sl show ?case by simp
qed

lemma stored_ints:
  "data s ''patch-level'' = Some (JInt l) \<Longrightarrow> data s ''patch-sublevel'' = Some (JInt k) \<Longrightarrow>
   stored s = Some (l, k)"
  by (simp add: stored_def marker_def)

lemma Apply_runs:
  assumes "stored (st w) = Some (l, k)" and "l \<le> Level cfg"
    and "\<not> (l = Level cfg \<and> Sublevel cfg \<le> k)" and "0 \<le> k + 1" and "k < max_int"
  shows "Apply cfg w =
    (case run_patches l (numbered (k + 1) (drop (nat (k + 1)) (sublevels cfg l))) (Unlock (Lock w)) of
       (Return None, w1) \<Rightarrow> run_levels cfg [l + 1..Level cfg] w1
     | r \<Rightarrow> r)"
  using assms wrap_inc_small [OF assms(5)]
  by (auto simp add: Apply_stored Apply_body_def Apply_body_pending Apply_levels_run
        applySublevelPatches_run split: outcome.splits option.splits prod.splits)

lemma Apply_unreadable:
  "stored (st w) = None \<Longrightarrow> \<exists>e. fst (Apply cfg w) = Return (Some e)"
  by (auto simp add: Apply_def Apply_read_marker stored_def Let_def split: option.splits)

lemma upto_1_2: "[1..2] = [1, 2::int]"
  by (simp add: upto_rec1)

section \<open>Pending sublevel patches of the running level\<close>



section \<open>Running Apply twice\<close>

lemma Apply_settled:
  assumes "settled cfg (st w)"
  shows "fst (Apply cfg w) = Return None \<and> calls (new_events w (snd (Apply cfg w))) = []"
proof -
  from assms obtain m j where
    s: "stored (st w) = Some (m, j)" and m: "m \<le> Level cfg"
    and j: "int (length (sublevels cfg m)) \<le> wrap_inc j"
    and e: "\<forall>l. m < l \<and> l \<le> Level cfg \<longrightarrow> patches cfg l = Some []"
    unfolding settled_def by blast
  let ?w2 = "Unlock (Lock w)"
  have lev: "Apply_levels cfg (m + 1) ?w2 = (Return None, ?w2)"
    using e by (simp add: Apply_levels_run run_levels_empty)
  have "Apply_body cfg m j ?w2 = (Return None, ?w2)
      \<or> Apply_body cfg m j ?w2 =
          (Return None, Unlock (wSet ''patch-sublevel'' (JInt (Sublevel cfg)) (Lock ?w2)))"
    using m j lev by (auto simp add: Apply_body_def)
  then show ?thesis
    using Apply_stored [OF s] by (auto simp add: new_events_def)
qed

lemma stored_same_noop:
  assumes "stored (st w) = Some (Level cfg, Sublevel cfg)"
  shows "fst (Apply cfg w) = Return None \<and> calls (new_events w (snd (Apply cfg w))) = []"
  using assms by (simp add: Apply_stored Apply_body_def new_events_def)

lemma Apply_cfg_up:
  "Apply cfg_up (mk_world (mk_state 0 0)) =
     (Return None,
      \<lparr>st = Set ''patch-sublevel'' (JInt 0) (Set ''patch-level'' (JInt 2) (Set ''c'' (JBool True)
             (Set ''patch-sublevel'' (JInt 1) (Set ''patch-level'' (JInt 1) (Set ''b'' (JBool True)
             (Set ''patch-sublevel'' (JInt 0) (Set ''patch-level'' (JInt 1) (Set ''a'' (JBool True)
             (mk_state 0 0))))))))),
       trace = [EvLock, EvUnlock] @ commit_events 1 0 @ commit_events 1 1 @ commit_events 2 0\<rparr>)"
proof -
  have "Apply cfg_up (mk_world (mk_state 0 0)) =
    (case run_patches 0 (numbered (0 + 1) (drop (nat (0 + 1)) (sublevels cfg_up 0)))
            (Unlock (Lock (mk_world (mk_state 0 0)))) of
       (Return None, w1) \<Rightarrow> run_levels cfg_up [0 + 1..Level cfg_up] w1
     | r \<Rightarrow> r)"
    by (rule Apply_runs) (simp_all add: cfg_up_def max_int_def)
  then show ?thesis
    by (simp add: cfg_up_def sublevels_def patches_def max_len_def upto_1_2 touch_def commit_events_def)
qed

text \<open>
  C5. Whatever the registry and the state: when a call of \<open>Apply\<close> returned \<open>nil\<close>, a
  second call on the world it left returns \<open>nil\<close> as well and calls no patch function.
\<close>

theorem Apply_idempotent:
  assumes "Apply cfg w = (Return None, w')"
  shows "fst (Apply cfg w') = Return None
       \<and> calls (new_events w' (snd (Apply cfg w'))) = []"
proof -
  obtain l k where s: "stored (st w) = Some (l, k)"
    using Apply_unreadable [of w cfg] assms by (cases "stored (st w)") auto
  let ?w2 = "Unlock (Lock w)"
  have body: "Apply_body cfg l k ?w2 = (Return None, w')"
    using Apply_stored [OF s] assms by simp
  have lk: "marker ''patch-level'' (st w) = Some l" and sk: "marker ''patch-sublevel'' (st w) = Some k"
    using s by (auto simp add: stored_def split: option.splits)
  have l: "l \<le> Level cfg"
    using body by (auto simp add: Apply_body_def split: if_splits)
  show ?thesis
  proof (cases "l = Level cfg \<and> Sublevel cfg \<le> k")
    case True
    then have "stored (st w') = Some (Level cfg, Sublevel cfg)"
      using body s lk
      by (cases "k = Sublevel cfg")
         (auto simp add: Apply_body_def stored_def marker_def Set_def)
    then show ?thesis by (rule stored_same_noop)
  next
    case False
    obtain o1 w1 where pend: "applySublevelPatches cfg l (wrap_inc k) ?w2 = (o1, w1)"
      by (cases "applySublevelPatches cfg l (wrap_inc k) ?w2")
    have o1: "o1 = Return None" and lev: "run_levels cfg [l + 1..Level cfg] w1 = (Return None, w')"
      using body False l pend
      by (auto simp add: Apply_body_def Apply_body_pending Apply_levels_run
               split: outcome.splits option.splits if_splits)
    have k0: "0 \<le> wrap_inc k"
    proof (rule ccontr)
      assume "\<not> 0 \<le> wrap_inc k"
      then have "applySublevelPatches cfg l (wrap_inc k) ?w2 = (Panic ''runtime error: index out of range'', ?w2)"
        by (subst applySublevelPatches.simps) simp
      with pend o1 show False by simp
    qed
    let ?ps = "sublevels cfg l"
    let ?xs = "numbered (wrap_inc k) (drop (nat (wrap_inc k)) ?ps)"
    have run: "run_patches l ?xs ?w2 = (Return None, w1)"
      using pend o1 k0 by (simp add: applySublevelPatches_run)
    have w1: "settled cfg (st w1)" if rest: "\<forall>m\<in>set [l + 1..Level cfg]. patches cfg m = Some []"
    proof (cases "drop (nat (wrap_inc k)) ?ps = []")
      case True
      then have "w1 = ?w2" using run by simp
      moreover have "int (length ?ps) \<le> wrap_inc k" using True k0 by simp
      ultimately show ?thesis using s l rest by (auto simp add: settled_def)
    next
      case ne: False
      then have xs: "?xs \<noteq> []" by (cases "drop (nat (wrap_inc k)) ?ps") auto
      have len: "wrap_inc k < int (length ?ps)" using ne k0 by simp
      from run_patches_ok [OF run] xs
      have "data (st w1) ''patch-level'' = Some (JInt l)"
        and "data (st w1) ''patch-sublevel'' = Some (JInt (fst (last ?xs)))"
        by simp_all
      moreover have "fst (last ?xs) = int (length ?ps) - 1"
        using last_numbered [OF ne, of "wrap_inc k"] k0 len by simp
      ultimately have "stored (st w1) = Some (l, int (length ?ps) - 1)"
        by (simp add: stored_ints)
      moreover have "wrap_inc (int (length ?ps) - 1) = int (length ?ps)"
        using length_sublevels [of cfg l] wrap_inc_small [of "int (length ?ps) - 1"] by simp
      ultimately show ?thesis using l rest by (auto simp add: settled_def)
    qed
    from run_levels_ok [OF lev] have "settled cfg (st w')"
    proof
      assume "w' = w1 \<and> (\<forall>m\<in>set [l + 1..Level cfg]. patches cfg m = Some [])"
      then show ?thesis using w1 by simp
    next
      assume "\<exists>pre m post ps. [l + 1..Level cfg] = pre @ m # post \<and> patches cfg m = Some ps
         \<and> ps \<noteq> [] \<and> (\<forall>l\<in>set post. patches cfg l = Some [])
         \<and> data (st w') ''patch-level'' = Some (JInt m)
         \<and> data (st w') ''patch-sublevel'' = Some (JInt (int (length ps) - 1))"
      then obtain pre m post ps where
        sp: "[l + 1..Level cfg] = pre @ m # post" and ps: "patches cfg m = Some ps"
        and post: "\<forall>l\<in>set post. patches cfg l = Some []"
        and lv: "data (st w') ''patch-level'' = Some (JInt m)"
        and sv: "data (st w') ''patch-sublevel'' = Some (JInt (int (length ps) - 1))"
        by blast
      have m: "m \<in> set [l + 1..Level cfg]" using sp by simp
      have "sorted_wrt (<) (pre @ m # post)" using sp sorted_wrt_upto [of "l + 1" "Level cfg"] by simp
      then have above: "\<forall>x\<in>set post. m < x" by (simp add: sorted_wrt_append)
      have below: "\<forall>x\<in>set pre. x < m"
        using \<open>sorted_wrt (<) (pre @ m # post)\<close> by (auto simp add: sorted_wrt_append)
      have "x \<in> set post" if x: "m < x" "x \<le> Level cfg" for x
      proof -
        have "l + 1 \<le> m" using m by simp
        then have "x \<in> set [l + 1..Level cfg]" using x by simp
        then have "x \<in> set (pre @ m # post)" unfolding sp .
        then have "x \<in> set pre \<or> x = m \<or> x \<in> set post" by auto
        then show ?thesis using below x(1) by auto
      qed
      then have "\<forall>x. m < x \<and> x \<le> Level cfg \<longrightarrow> x \<in> set post" by blast
      then have "\<forall>x. m < x \<and> x \<le> Level cfg \<longrightarrow> patches cfg x = Some []"
        using post by blast
      moreover have "stored (st w') = Some (m, int (length ps) - 1)"
        using lv sv by (rule stored_ints)
      moreover have sl: "sublevels cfg m = ps" using ps by (simp add: sublevels_def)
      moreover have "wrap_inc (int (length ps) - 1) = int (length ps)"
        using length_sublevels [of cfg m] wrap_inc_small [of "int (length ps) - 1"] sl by simp
      ultimately show ?thesis using m by (auto simp add: settled_def)
    qed
    then show ?thesis by (rule Apply_settled)
  qed
qed

theorem Apply_idempotent_witness:
  "fst (Apply cfg_up (mk_world (mk_state 0 0))) = Return None
   \<and> calls (new_events (mk_world (mk_state 0 0)) (snd (Apply cfg_up (mk_world (mk_state 0 0)))))
       = [(1, 0), (1, 1), (2, 0)]
   \<and> fst (Apply cfg_up (snd (Apply cfg_up (mk_world (mk_state 0 0))))) = Return None
   \<and> calls (new_events (snd (Apply cfg_up (mk_world (mk_state 0 0))))
              (snd (Apply cfg_up (snd (Apply cfg_up (mk_world (mk_state 0 0))))))) = []"
proof -
  let ?w = "mk_world (mk_state 0 0)"
  have first: "fst (Apply cfg_up ?w) = Return None"
    by (simp add: Apply_cfg_up)
  then have h: "Apply cfg_up ?w = (Return None, snd (Apply cfg_up ?w))"
    by (metis prod.collapse)
  have c: "calls (new_events ?w (snd (Apply cfg_up ?w))) = [(1, 0), (1, 1), (2, 0)]"
    by (simp add: Apply_cfg_up new_events_def commit_events_def)
  show ?thesis
    using first c Apply_idempotent [OF h] by blast
qed

section \<open>A patch function that fails\<close>

lemma committed_append [simp]: "committed (a @ b) c = committed b (committed a c)"
  by (induction a c rule: committed.induct) auto

lemma failures_append [simp]: "failures (a @ b) = failures a @ failures b"
  by (induction a rule: failures.induct) auto

lemma failures_commit_events [simp]: "failures (commit_events l k) = []"
  by (simp add: commit_events_def)

lemma committed_commit_events [simp]: "committed (commit_events l k) c = Some (l, k)"
  by (simp add: commit_events_def)

lemma run_inv_prepend:
  assumes "failures a = []" and "run_inv cfg (committed a c) m0 tr out s'"
  shows "run_inv cfg c m0 (a @ tr) out s'"
proof -
  from assms(2) consider
    (ok) "failures tr = []" "markers s' = at_commit (committed tr (committed a c)) m0"
         "out = Return None \<or> (\<exists>n. out = Return (Some (ErrUpgrade n)))"
  | (failed) pre l k e s where
      "tr = pre @ [EvLock, EvPatch l k (Some e), EvUnlock]" "failures pre = []"
      "out = Return (Some (ErrPatch l k e))" "(sublevels cfg l ! nat k) s = (Some e, s')"
      "markers s = at_commit (committed pre (committed a c)) m0"
    unfolding run_inv_def by blast
  then show ?thesis
  proof cases
    case ok
    then show ?thesis using assms(1) by (simp add: run_inv_def)
  next
    case failed
    then have "a @ tr = (a @ pre) @ [EvLock, EvPatch l k (Some e), EvUnlock]
        \<and> failures (a @ pre) = []
        \<and> out = Return (Some (ErrPatch l k e))
        \<and> (sublevels cfg l ! nat k) s = (Some e, s')
        \<and> markers s = at_commit (committed (a @ pre) c) m0"
      using assms(1) by simp
    then show ?thesis unfolding run_inv_def by blast
  qed
qed

lemma run_inv_ok:
  "run_inv cfg c m0 tr (Return None) s' \<Longrightarrow>
   failures tr = [] \<and> markers s' = at_commit (committed tr c) m0"
  by (auto simp add: run_inv_def)

lemma run_inv_outcome:
  "run_inv cfg c m0 tr out s' \<Longrightarrow>
     ((out = Return None \<or> (\<exists>n. out = Return (Some (ErrUpgrade n)))) \<and> failures tr = [])
   \<or> (\<exists>l k e. out = Return (Some (ErrPatch l k e)) \<and> failures tr = [(l, k, e)])"
  by (auto simp add: run_inv_def)

lemma run_patches_inv:
  assumes "run_patches l xs w = (out, w')" and "markers (st w) = at_commit c m0"
    and "\<forall>(k, p)\<in>set xs. p = sublevels cfg l ! nat k"
  shows "\<exists>tr. trace w' = trace w @ tr \<and> run_inv cfg c m0 tr out (st w')
           \<and> (\<forall>n. out \<noteq> Return (Some (ErrUpgrade n)))"
  using assms
proof (induction xs arbitrary: w c)
  case Nil
  then have "trace w' = trace w @ [] \<and> run_inv cfg c m0 [] out (st w')
           \<and> (\<forall>n. out \<noteq> Return (Some (ErrUpgrade n)))"
    by (auto simp add: run_inv_def)
  then show ?case by blast
next
  case (Cons x xs)
  obtain k p where x: "x = (k, p)" by (cases x)
  obtain err s' where p: "p (st w) = (err, s')" by (cases "p (st w)")
  have pk: "p = sublevels cfg l ! nat k" using Cons.prems(3) x by simp
  show ?case
  proof (cases err)
    case (Some e)
    with Cons.prems(1) x p have res: "out = Return (Some (ErrPatch l k e))"
      "w' = \<lparr>st = s', trace = trace w @ [EvLock, EvPatch l k (Some e), EvUnlock]\<rparr>"
      by auto
    have "run_inv cfg c m0 ([] @ [EvLock, EvPatch l k (Some e), EvUnlock]) out (st w')"
      unfolding run_inv_def using res p pk Some Cons.prems(2) by auto
    then show ?thesis using res by (intro exI [of _ "[EvLock, EvPatch l k (Some e), EvUnlock]"]) simp
  next
    case None
    let ?w1 = "\<lparr>st = Set ''patch-sublevel'' (JInt k) (Set ''patch-level'' (JInt l) s'),
                trace = trace w @ commit_events l k\<rparr>"
    from Cons.prems(1) x p None have rest: "run_patches l xs ?w1 = (out, w')"
      by (simp add: commit_events_def)
    have m1: "markers (st ?w1) = at_commit (Some (l, k)) m0"
      by (simp add: markers_def at_commit_def Set_def)
    have all: "\<forall>(k, p)\<in>set xs. p = sublevels cfg l ! nat k" using Cons.prems(3) by simp
    from Cons.IH [OF rest m1 all] obtain tr where
      tr: "trace w' = trace ?w1 @ tr" "run_inv cfg (Some (l, k)) m0 tr out (st w')"
          "\<forall>n. out \<noteq> Return (Some (ErrUpgrade n))"
      by blast
    have t: "trace w' = trace w @ (commit_events l k @ tr)" using tr(1) by simp
    have "run_inv cfg c m0 (commit_events l k @ tr) out (st w')"
    proof (rule run_inv_prepend)
      show "failures (commit_events l k) = []" by simp
      show "run_inv cfg (committed (commit_events l k) c) m0 tr out (st w')"
        using tr(2) by simp
    qed
    then show ?thesis using t tr(3) by blast
  qed
qed

lemma run_levels_inv:
  assumes "run_levels cfg ls w = (out, w')" and "markers (st w) = at_commit c m0"
  shows "\<exists>tr. trace w' = trace w @ tr \<and> run_inv cfg c m0 tr out (st w')"
  using assms
proof (induction ls arbitrary: w c)
  case Nil
  then have "trace w' = trace w @ [] \<and> run_inv cfg c m0 [] out (st w')"
    by (auto simp add: run_inv_def)
  then show ?case by blast
next
  case (Cons a ls)
  show ?case
  proof (cases "patches cfg a")
    case None
    with Cons.prems have "trace w' = trace w @ [] \<and> run_inv cfg c m0 [] out (st w')"
      by (auto simp add: run_inv_def)
    then show ?thesis by blast
  next
    case (Some ps)
    then have sl: "sublevels cfg a = ps" by (simp add: sublevels_def)
    obtain o1 w1 where r1: "run_patches a (numbered 0 ps) w = (o1, w1)"
      by (cases "run_patches a (numbered 0 ps) w")
    have all: "\<forall>(k, p)\<in>set (numbered 0 ps). p = sublevels cfg a ! nat k"
      using in_numbered [of _ _ 0 ps] sl by auto
    from run_patches_inv [OF r1 Cons.prems(2) all] obtain tr1 where
      tr1: "trace w1 = trace w @ tr1" "run_inv cfg c m0 tr1 o1 (st w1)" by blast
    show ?thesis
    proof (cases "o1 = Return None")
      case True
      with Cons.prems(1) Some r1 have rest: "run_levels cfg ls w1 = (out, w')" by simp
      from run_inv_ok tr1(2) True have q: "failures tr1 = []"
        and m1: "markers (st w1) = at_commit (committed tr1 c) m0" by blast+
      from Cons.IH [OF rest m1] obtain tr where
        tr: "trace w' = trace w1 @ tr" "run_inv cfg (committed tr1 c) m0 tr out (st w')" by blast
      have "trace w' = trace w @ (tr1 @ tr)" using tr(1) tr1(1) by simp
      moreover have "run_inv cfg c m0 (tr1 @ tr) out (st w')"
        using q tr(2) by (rule run_inv_prepend)
      ultimately show ?thesis by blast
    next
      case False
      with Cons.prems(1) Some r1 have "out = o1" "w' = w1"
        by (cases o1; auto split: option.splits)+
      with tr1 show ?thesis by blast
    qed
  qed
qed

lemma Apply_inv:
  "\<exists>tr. trace (snd (Apply cfg w)) = trace w @ tr
      \<and> (failures tr = []
         \<or> run_inv cfg None (markers (st w)) tr (fst (Apply cfg w)) (st (snd (Apply cfg w))))"
proof (cases "stored (st w)")
  case None
  then have "trace (snd (Apply cfg w)) = trace w @ [EvLock, EvUnlock]"
    by (auto simp add: Apply_def Apply_read_marker stored_def Let_def split: option.splits)
  then have "trace (snd (Apply cfg w)) = trace w @ [EvLock, EvUnlock]
      \<and> failures [EvLock, EvUnlock] = []" by simp
  then show ?thesis by blast
next
  case (Some lk)
  obtain l k where lk: "lk = (l, k)" by (cases lk)
  let ?w2 = "Unlock (Lock w)"
  have ap: "Apply cfg w = Apply_body cfg l k ?w2"
    using Some lk by (simp add: Apply_stored)
  show ?thesis
  proof (cases "l > Level cfg \<or> (l = Level cfg \<and> Sublevel cfg \<le> k)")
    case True
    then have "trace (snd (Apply cfg w)) = trace w @ [EvLock, EvUnlock] \<or>
      trace (snd (Apply cfg w)) =
        trace w @ [EvLock, EvUnlock, EvLock, EvSet ''patch-sublevel'' (JInt (Sublevel cfg)), EvUnlock]"
      unfolding ap by (auto simp add: Apply_body_def)
    then have "\<exists>tr. trace (snd (Apply cfg w)) = trace w @ tr \<and> failures tr = []"
    proof
      assume "trace (snd (Apply cfg w)) = trace w @ [EvLock, EvUnlock]"
      then have "trace (snd (Apply cfg w)) = trace w @ [EvLock, EvUnlock]
         \<and> failures [EvLock, EvUnlock] = []" by simp
      then show ?thesis by blast
    next
      assume "trace (snd (Apply cfg w)) =
        trace w @ [EvLock, EvUnlock, EvLock, EvSet ''patch-sublevel'' (JInt (Sublevel cfg)), EvUnlock]"
      then have "trace (snd (Apply cfg w)) =
        trace w @ [EvLock, EvUnlock, EvLock, EvSet ''patch-sublevel'' (JInt (Sublevel cfg)), EvUnlock]
        \<and> failures [EvLock, EvUnlock, EvLock, EvSet ''patch-sublevel'' (JInt (Sublevel cfg)), EvUnlock] = []"
        by simp
      then show ?thesis by blast
    qed
    then show ?thesis by blast
  next
    case False
    obtain o1 w1 where pend: "applySublevelPatches cfg l (wrap_inc k) ?w2 = (o1, w1)"
      by (cases "applySublevelPatches cfg l (wrap_inc k) ?w2")
    have body: "Apply cfg w =
       (case (o1, w1) of (Return None, w1) \<Rightarrow> run_levels cfg [l + 1..Level cfg] w1 | r \<Rightarrow> r)"
      unfolding ap using False pend
      by (auto simp add: Apply_body_def Apply_body_pending Apply_levels_run
               split: outcome.splits option.splits)
    show ?thesis
    proof (cases "0 \<le> wrap_inc k")
      case neg: False
      then have "applySublevelPatches cfg l (wrap_inc k) ?w2 = (Panic ''runtime error: index out of range'', ?w2)"
        by (subst applySublevelPatches.simps) simp
      with pend body have "Apply cfg w = (Panic ''runtime error: index out of range'', ?w2)"
        by auto
      then have "trace (snd (Apply cfg w)) = trace w @ [EvLock, EvUnlock]
         \<and> failures [EvLock, EvUnlock] = []" by simp
      then show ?thesis by blast
    next
      case True
      let ?xs = "numbered (wrap_inc k) (drop (nat (wrap_inc k)) (sublevels cfg l))"
      have run: "run_patches l ?xs ?w2 = (o1, w1)"
        using pend True by (simp add: applySublevelPatches_run)
      have all: "\<forall>(j, p)\<in>set ?xs. p = sublevels cfg l ! nat j"
        using in_numbered_drop [OF _ True] by auto
      have m2: "markers (st ?w2) = at_commit None (markers (st w))"
        by (simp add: at_commit_def)
      from run_patches_inv [OF run m2 all] obtain tr1 where
        tr1: "trace w1 = trace ?w2 @ tr1" "run_inv cfg None (markers (st w)) tr1 o1 (st w1)"
        by blast
      show ?thesis
      proof (cases "o1 = Return None")
        case ok: True
        obtain out w' where lev: "run_levels cfg [l + 1..Level cfg] w1 = (out, w')"
          by (cases "run_levels cfg [l + 1..Level cfg] w1")
        from body ok lev have res: "Apply cfg w = (out, w')" by simp
        from run_inv_ok tr1(2) ok have q: "failures tr1 = []"
          and m1: "markers (st w1) = at_commit (committed tr1 None) (markers (st w))" by blast+
        from run_levels_inv [OF lev m1] obtain tr where
          tr: "trace w' = trace w1 @ tr"
              "run_inv cfg (committed tr1 None) (markers (st w)) tr out (st w')" by blast
        have both: "run_inv cfg None (markers (st w)) (tr1 @ tr) out (st w')"
          using q tr(2) by (rule run_inv_prepend)
        have "run_inv cfg None (markers (st w)) ([EvLock, EvUnlock] @ tr1 @ tr) out (st w')"
        proof (rule run_inv_prepend)
          show "failures [EvLock, EvUnlock] = []" by simp
          show "run_inv cfg (committed [EvLock, EvUnlock] None) (markers (st w)) (tr1 @ tr) out (st w')"
            using both by simp
        qed
        moreover have "trace w' = trace w @ ([EvLock, EvUnlock] @ tr1 @ tr)"
          using tr(1) tr1(1) by simp
        ultimately show ?thesis using res by (intro exI [of _ "[EvLock, EvUnlock] @ tr1 @ tr"]) simp
      next
        case False
        with body have res: "Apply cfg w = (o1, w1)"
          by (cases o1) (auto split: option.splits)
        have "run_inv cfg None (markers (st w)) ([EvLock, EvUnlock] @ tr1) o1 (st w1)"
        proof (rule run_inv_prepend)
          show "failures [EvLock, EvUnlock] = []" by simp
          show "run_inv cfg (committed [EvLock, EvUnlock] None) (markers (st w)) tr1 o1 (st w1)"
            using tr1(2) by simp
        qed
        moreover have "trace w1 = trace w @ ([EvLock, EvUnlock] @ tr1)"
          using tr1(1) by simp
        ultimately show ?thesis using res by (intro exI [of _ "[EvLock, EvUnlock] @ tr1"]) simp
      qed
    qed
  qed
qed

lemma Apply_cfg_fail:
  "Apply cfg_fail (mk_world (mk_state 0 0)) =
     (Return (Some (ErrPatch 1 1 (ErrMsg ''boom''))),
      \<lparr>st = Set ''patch-sublevel'' (JInt 0) (Set ''patch-level'' (JInt 1) (Set ''a'' (JBool True)
             (mk_state 0 0))),
       trace = [EvLock, EvUnlock] @ commit_events 1 0 @
               [EvLock, EvPatch 1 1 (Some (ErrMsg ''boom'')), EvUnlock]\<rparr>)"
proof -
  have "Apply cfg_fail (mk_world (mk_state 0 0)) =
    (case run_patches 0 (numbered (0 + 1) (drop (nat (0 + 1)) (sublevels cfg_fail 0)))
            (Unlock (Lock (mk_world (mk_state 0 0)))) of
       (Return None, w1) \<Rightarrow> run_levels cfg_fail [0 + 1..Level cfg_fail] w1
     | r \<Rightarrow> r)"
    by (rule Apply_runs) (simp_all add: cfg_fail_def max_int_def)
  then show ?thesis
    by (simp add: cfg_fail_def sublevels_def patches_def max_len_def touch_def failing_def commit_events_def)
qed

lemma Apply_cfg_clobber:
  "Apply cfg_clobber (mk_world (mk_state 0 0)) =
     (Return (Some (ErrPatch 1 0 (ErrMsg ''boom''))),
      \<lparr>st = Set ''patch-level'' (JInt 99) (mk_state 0 0),
       trace = [EvLock, EvUnlock, EvLock, EvPatch 1 0 (Some (ErrMsg ''boom'')), EvUnlock]\<rparr>)"
proof -
  have "Apply cfg_clobber (mk_world (mk_state 0 0)) =
    (case run_patches 0 (numbered (0 + 1) (drop (nat (0 + 1)) (sublevels cfg_clobber 0)))
            (Unlock (Lock (mk_world (mk_state 0 0)))) of
       (Return None, w1) \<Rightarrow> run_levels cfg_clobber [0 + 1..Level cfg_clobber] w1
     | r \<Rightarrow> r)"
    by (rule Apply_runs) (simp_all add: cfg_clobber_def max_int_def)
  then show ?thesis
    by (simp add: cfg_clobber_def sublevels_def patches_def max_len_def clobber_def)
qed

text \<open>
  C2, as the code has it. Let a patch function called during \<open>Apply\<close> return the error
  \<open>e\<close>, for level \<open>l\<close> and sublevel \<open>k\<close>. Then \<open>Apply\<close> returns
  \<open>cannot patch system state to level l, sublevel k: e\<close>; this is the only call that
  failed, and its transaction (lock, call, unlock, with no \<open>Set\<close>) is the last thing in
  the trace, so no bump is recorded for it and nothing runs after it. The patch function
  was called on a state whose markers were what the last patch function that returned
  \<open>nil\<close> had committed (the initial entries if there was none), and the state \<open>Apply\<close>
  ends in is the one this call left. Hence the stored markers are those of the last
  commit whenever the failing patch function does not change the two marker entries
  itself. The registry and the initial state are arbitrary.
\<close>

theorem Apply_patch_failure:
  assumes "(l, k, e) \<in> set (failures (new_events w (snd (Apply cfg w))))"
  shows "fst (Apply cfg w) = Return (Some (ErrPatch l k e))
       \<and> failures (new_events w (snd (Apply cfg w))) = [(l, k, e)]
       \<and> (\<exists>pre. new_events w (snd (Apply cfg w)) = pre @ [EvLock, EvPatch l k (Some e), EvUnlock])
       \<and> (\<exists>s. markers s = at_commit (committed (new_events w (snd (Apply cfg w))) None)
                              (markers (st w))
              \<and> (sublevels cfg l ! nat k) s = (Some e, st (snd (Apply cfg w))))
       \<and> ((\<forall>s e' s'. (sublevels cfg l ! nat k) s = (Some e', s') \<longrightarrow> markers s' = markers s) \<longrightarrow>
            markers (st (snd (Apply cfg w))) =
              at_commit (committed (new_events w (snd (Apply cfg w))) None) (markers (st w)))"
proof -
  from Apply_inv [of cfg w] obtain tr where
    t: "trace (snd (Apply cfg w)) = trace w @ tr"
    and inv: "failures tr = []
         \<or> run_inv cfg None (markers (st w)) tr (fst (Apply cfg w)) (st (snd (Apply cfg w)))"
    by blast
  have new: "new_events w (snd (Apply cfg w)) = tr" using t by simp
  from assms new have ne: "failures tr \<noteq> []" by auto
  with inv obtain pre l' k' e' s where
    f: "tr = pre @ [EvLock, EvPatch l' k' (Some e'), EvUnlock]" "failures pre = []"
       "fst (Apply cfg w) = Return (Some (ErrPatch l' k' e'))"
       "(sublevels cfg l' ! nat k') s = (Some e', st (snd (Apply cfg w)))"
       "markers s = at_commit (committed pre None) (markers (st w))"
    unfolding run_inv_def by auto
  have fl: "failures tr = [(l', k', e')]" using f(1,2) by simp
  with assms new have eq: "l' = l" "k' = k" "e' = e" by auto
  have c: "committed tr None = committed pre None" using f(1) by simp
  show ?thesis
    using f fl eq c new by auto
qed

theorem Apply_patch_failure_witness:
  "(1, 1, ErrMsg ''boom'') \<in>
      set (failures (new_events (mk_world (mk_state 0 0))
                       (snd (Apply cfg_fail (mk_world (mk_state 0 0))))))
   \<and> (sublevels cfg_fail 1 ! nat 1) (mk_state 0 0) = (Some (ErrMsg ''boom''), mk_state 0 0)
   \<and> fst (Apply cfg_fail (mk_world (mk_state 0 0))) = Return (Some (ErrPatch 1 1 (ErrMsg ''boom'')))
   \<and> committed (new_events (mk_world (mk_state 0 0))
                  (snd (Apply cfg_fail (mk_world (mk_state 0 0))))) None = Some (1, 0)
   \<and> markers (st (snd (Apply cfg_fail (mk_world (mk_state 0 0))))) = (Some (JInt 1), Some (JInt 0))"
proof -
  let ?w = "mk_world (mk_state 0 0)"
  have new: "new_events ?w (snd (Apply cfg_fail ?w)) =
      [EvLock, EvUnlock] @ commit_events 1 0 @ [EvLock, EvPatch 1 1 (Some (ErrMsg ''boom'')), EvUnlock]"
    by (simp add: Apply_cfg_fail new_events_def)
  have h: "(1, 1, ErrMsg ''boom'') \<in> set (failures (new_events ?w (snd (Apply cfg_fail ?w))))"
    unfolding new by (simp add: commit_events_def)
  have frame: "\<forall>s e' s'. (sublevels cfg_fail 1 ! nat 1) s = (Some e', s') \<longrightarrow> markers s' = markers s"
    by (simp add: cfg_fail_def sublevels_def patches_def max_len_def failing_def)
  have c: "committed (new_events ?w (snd (Apply cfg_fail ?w))) None = Some (1, 0)"
    unfolding new by (simp add: commit_events_def)
  have "markers (st (snd (Apply cfg_fail ?w))) =
          at_commit (committed (new_events ?w (snd (Apply cfg_fail ?w))) None) (markers (st ?w))"
    using Apply_patch_failure [OF h] frame by blast
  then have m: "markers (st (snd (Apply cfg_fail ?w))) = (Some (JInt 1), Some (JInt 0))"
    unfolding c by (simp add: at_commit_def)
  have p: "(sublevels cfg_fail 1 ! nat 1) (mk_state 0 0) = (Some (ErrMsg ''boom''), mk_state 0 0)"
    by (simp add: cfg_fail_def sublevels_def patches_def max_len_def failing_def)
  show ?thesis
    using h p c m Apply_patch_failure [OF h] by blast
qed

text \<open>
  C2 as it is worded, for every registry, does not hold: a patch function gets the whole
  state, the marker keys included. Here the only patch function writes 99 to
  \<open>patch-level\<close> and fails; nothing was committed, the initial level was 0, and the
  stored level is 99 afterwards.
\<close>

theorem Apply_patch_failure_markers_counterexample:
  "(1, 0, ErrMsg ''boom'') \<in>
      set (failures (new_events (mk_world (mk_state 0 0))
                       (snd (Apply cfg_clobber (mk_world (mk_state 0 0))))))
   \<and> committed (new_events (mk_world (mk_state 0 0))
                  (snd (Apply cfg_clobber (mk_world (mk_state 0 0))))) None = None
   \<and> data (st (mk_world (mk_state 0 0))) ''patch-level'' = Some (JInt 0)
   \<and> data (st (snd (Apply cfg_clobber (mk_world (mk_state 0 0))))) ''patch-level'' = Some (JInt 99)"
  unfolding Apply_cfg_clobber by (simp add: new_events_def Set_def mk_state_def)

section \<open>Upgrading through the levels\<close>

lemma Apply_cfg_lowfail:
  "Apply cfg_lowfail (mk_world (mk_state 0 0)) =
     (Return (Some (ErrPatch 1 0 (ErrMsg ''boom''))),
      \<lparr>st = mk_state 0 0,
       trace = [EvLock, EvUnlock, EvLock, EvPatch 1 0 (Some (ErrMsg ''boom'')), EvUnlock]\<rparr>)"
proof -
  have "Apply cfg_lowfail (mk_world (mk_state 0 0)) =
    (case run_patches 0 (numbered (0 + 1) (drop (nat (0 + 1)) (sublevels cfg_lowfail 0)))
            (Unlock (Lock (mk_world (mk_state 0 0)))) of
       (Return None, w1) \<Rightarrow> run_levels cfg_lowfail [0 + 1..Level cfg_lowfail] w1
     | r \<Rightarrow> r)"
    by (rule Apply_runs) (simp_all add: cfg_lowfail_def max_int_def)
  then show ?thesis
    by (simp add: cfg_lowfail_def sublevels_def patches_def max_len_def upto_1_2 failing_def)
qed

lemma Apply_cfg_gap_largest_sublevel:
  "Apply cfg_gap (mk_world (mk_state 1 9223372036854775807)) =
     (Panic ''runtime error: index out of range'',
      Unlock (Lock (mk_world (mk_state 1 9223372036854775807))))"
proof -
  have w: "wrap_inc 9223372036854775807 = - 9223372036854775808"
    by (simp add: wrap_inc_def max_int_def min_int_def)
  have len: "length (sublevels cfg_gap 1) = 1"
    by (simp add: cfg_gap_def sublevels_def patches_def max_len_def)
  have "Apply_body cfg_gap 1 9223372036854775807 (Unlock (Lock (mk_world (mk_state 1 9223372036854775807)))) =
     (Panic ''runtime error: index out of range'',
      Unlock (Lock (mk_world (mk_state 1 9223372036854775807))))"
    by (simp add: Apply_body_def w len applySublevelPatches_negative) (simp add: cfg_gap_def)
  then show ?thesis
    by (simp add: Apply_stored)
qed




end
